theory Spec2Isabelle
  imports Complex_Main "HOL-Library.Sublist"
begin

section \<open>Values shared by the modules\<close>

text \<open>
  Python strings are modelled as \<open>string\<close>; one \<open>char\<close> stands for one code point
  below 256. A JSON value is what \<^verbatim>\<open>json.loads\<close> hands back: \<^verbatim>\<open>None\<close>, a bool, a number,
  a \<^verbatim>\<open>str\<close>, a \<^verbatim>\<open>list\<close> or a \<^verbatim>\<open>dict\<close> with string keys (in insertion order). A number
  (\<^verbatim>\<open>int\<close> or \<^verbatim>\<open>float\<close>) is carried as its Python \<^verbatim>\<open>repr\<close>, which is all the
  program ever does with one (printing it or serialising it).
\<close>

datatype json =
    JNull
  | JBool bool
  | JNumber string
  | JString string
  | JArray "json list"
  | JObject "(string \<times> json) list"

text \<open>The exceptions that can travel through the code under study.\<close>

datatype exn = JSONDecodeError | IndexError | KeyError | TypeError | RecursionError

definition then_do :: "exn + 'a \<Rightarrow> ('a \<Rightarrow> exn + 'b) \<Rightarrow> exn + 'b" where
  "then_do m f = (case m of Inl e \<Rightarrow> Inl e | Inr x \<Rightarrow> f x)"

text \<open>The record dict built by \<^verbatim>\<open>search_single_reference\<close>. The fields \<^verbatim>\<open>verified\<close>
  and \<^verbatim>\<open>notes\<close> are later overwritten with whatever the verifier's JSON holds, so they
  are JSON values. (\<open>notes\<close> is a reserved word of the prover, hence \<open>ref_notes\<close>.)\<close>

record ref_record =
  reference :: string
  verified :: json
  search_urls :: "string list"
  ref_notes :: json

section \<open>Decimal rendering of a length\<close>

definition digit_char :: "nat \<Rightarrow> char" where
  "digit_char d = char_of (48 + d)"

function str_nat :: "nat \<Rightarrow> string" where
  "str_nat n = (if n < 10 then [digit_char n] else str_nat (n div 10) @ [digit_char (n mod 10)])"
  by pat_completeness auto
termination
  by (relation "measure id") auto

declare str_nat.simps [simp del]

text \<open>Reading a decimal numeral back, to state what \<open>str_nat\<close> writes.\<close>

definition decimal_value :: "string \<Rightarrow> nat" where
  "decimal_value s = foldl (\<lambda>a c. 10 * a + (of_char c - 48)) 0 s"

section \<open>The web search and its observable effects\<close>

text \<open>
  What the submitted call \<^verbatim>\<open>list(search(reference, num_results=3, lang="en"))\<close> can do:
  \<^item> \<open>Returned urls\<close>: it ends within 10 seconds and hands back the URLs;
  \<^item> \<open>Raised cause\<close>: it ends within 10 seconds by raising an \<^verbatim>\<open>Exception\<close> that is not
    a \<^verbatim>\<open>TimeoutError\<close>; \<open>cause\<close> is \<^verbatim>\<open>str(e)\<close>;
  \<^item> \<open>Raised_timeout cause\<close>: it ends within 10 seconds by raising an exception that
    \<^verbatim>\<open>except TimeoutError\<close> catches (the \<^verbatim>\<open>TimeoutError\<close> of \<^verbatim>\<open>concurrent.futures\<close>, which
    from Python 3.11 on is the builtin one, as raised by a socket that times out);
  \<^item> \<open>TimedOut\<close>: it has not ended after 10 seconds, so that
    \<^verbatim>\<open>future.result(timeout=10)\<close> raises \<^verbatim>\<open>TimeoutError\<close>, and it ends later;
  \<^item> \<open>Never_ends\<close>: it has not ended after 10 seconds and never ends.

  The \<^verbatim>\<open>return\<close> of the timeout handler sits inside the \<^verbatim>\<open>with ThreadPoolExecutor\<close> block,
  and leaving that block is \<^verbatim>\<open>shutdown(wait=True)\<close>, which joins the worker: control
  comes back once the call has ended, and never when it never ends.

  The effects are recorded in a trace: each search issued and each \<^verbatim>\<open>time.sleep\<close>. The
  search provider may answer differently each time, so its answer is a function of the
  trace so far and of the query.
\<close>

datatype search_outcome =
    Returned "string list"
  | Raised string
  | Raised_timeout string
  | TimedOut
  | Never_ends

text \<open>How a call of the program ends: it returns a value, an exception leaves it, or
  it never returns.\<close>

datatype 'a result = Returns 'a | Raises exn | Never_returns

definition of_sum :: "exn + 'a \<Rightarrow> 'a result" where
  "of_sum x = (case x of Inl e \<Rightarrow> Raises e | Inr v \<Rightarrow> Returns v)"

datatype event = Search string | Sleep rat

type_synonym searcher = "event list \<Rightarrow> string \<Rightarrow> search_outcome"

definition search_single_reference ::
  "searcher \<Rightarrow> string \<Rightarrow> event list \<Rightarrow> ref_record result \<times> event list" where
  "search_single_reference search ref tr =
     (let result = \<lparr>reference = ref, verified = JBool False, search_urls = [], ref_notes = JString ''''\<rparr>;
          tr1 = tr @ [Search ref]
      in case search tr ref of
           TimedOut \<Rightarrow> (Returns (result\<lparr>ref_notes := JString ''Search timed out.''\<rparr>), tr1)
         | Never_ends \<Rightarrow> (Never_returns, tr1)
         | Raised_timeout msg \<Rightarrow> (Returns (result\<lparr>ref_notes := JString ''Search timed out.''\<rparr>), tr1)
         | Raised msg \<Rightarrow> (Returns (result\<lparr>ref_notes := JString (''Search failed: '' @ msg)\<rparr>), tr1)
         | Returned urls \<Rightarrow>
             (let tr2 = tr1 @ [Sleep (1 / 2)];
                  result = result\<lparr>search_urls := urls\<rparr>
              in if urls = []
                 then (Returns (result\<lparr>ref_notes :=
                          JString ''No search results found. Reference may not exist.''\<rparr>), tr2)
                 else (Returns (result\<lparr>ref_notes :=
                          JString (''Found '' @ str_nat (length urls) @ '' search results.'')\<rparr>), tr2)))"

text \<open>The agent tool of \<^verbatim>\<open>tools.py\<close>: the same search, reported as prose.\<close>

fun enumerate_urls :: "nat \<Rightarrow> string list \<Rightarrow> string" where
  "enumerate_urls i [] = []"
| "enumerate_urls i (url # urls) =
     ''  '' @ str_nat i @ ''. '' @ url @ [CHR 0x0A] @ enumerate_urls (Suc i) urls"

definition timed_out_message :: "string \<Rightarrow> string" where
  "timed_out_message ref =
     ''Search timed out for '' @ [CHR 0x27] @ ref @ [CHR 0x27] @ ''. Could not verify this reference.''"

definition search_reference :: "searcher \<Rightarrow> string \<Rightarrow> event list \<Rightarrow> string result \<times> event list" where
  "search_reference search ref tr =
     (let tr1 = tr @ [Search ref]
      in case search tr ref of
           TimedOut \<Rightarrow> (Returns (timed_out_message ref), tr1)
         | Never_ends \<Rightarrow> (Never_returns, tr1)
         | Raised_timeout msg \<Rightarrow> (Returns (timed_out_message ref), tr1)
         | Raised msg \<Rightarrow>
             (Returns (''Search failed for '' @ [CHR 0x27] @ ref @ [CHR 0x27] @ '': '' @ msg
                @ ''. Could not verify this reference.''), tr1)
         | Returned results \<Rightarrow>
             (let tr2 = tr1 @ [Sleep (1 / 2)]
              in if results = []
                 then (Returns (''NO RESULTS FOUND for: '' @ [CHR 0x27] @ ref @ [CHR 0x27] @ ''. ''
                         @ ''This reference may not exist or may be incorrectly cited.''), tr2)
                 else (Returns (''Search results for: '' @ [CHR 0x27] @ ref @ [CHR 0x27] @ '':'' @ [CHR 0x0A]
                         @ enumerate_urls 1 results
                         @ [CHR 0x0A] @ ''Based on these results, assess whether the reference is real ''
                         @ ''and correctly cited (authors, year, title, journal).''), tr2)))"

section \<open>Text operations of Python's \<^verbatim>\<open>str\<close>\<close>

text \<open>Substring test, Python's \<^verbatim>\<open>sep in text\<close>.\<close>

fun contains :: "string \<Rightarrow> string \<Rightarrow> bool" where
  "contains sep [] = (sep = [])"
| "contains sep (c # cs) = (prefix sep (c # cs) \<or> contains sep cs)"

text \<open>\<^verbatim>\<open>str.isspace\<close> on the code points below 256: TAB, LF, VT, FF, CR, the separators
  0x1C to 0x1F, the space, NEL (0x85) and the no-break space (0xA0).\<close>

definition is_space :: "char \<Rightarrow> bool" where
  "is_space c = ((of_char c :: nat) \<in> {9, 10, 11, 12, 13, 28, 29, 30, 31, 32, 133, 160})"

definition strip :: "string \<Rightarrow> string" where
  "strip s = rev (dropWhile is_space (rev (dropWhile is_space s)))"

text \<open>\<^verbatim>\<open>text.split(sep)\<close> for a non-empty separator: cut at the occurrences of \<open>sep\<close>,
  found from left to right without overlap. \<open>acc\<close> is the part being collected. (Python
  raises \<^verbatim>\<open>ValueError\<close> for an empty separator; the program only splits at the two
  fences.)\<close>

function split_acc :: "string \<Rightarrow> string \<Rightarrow> string \<Rightarrow> string list" where
  "split_acc sep acc [] = [acc]"
| "split_acc sep acc (c # cs) =
     (if sep \<noteq> [] \<and> prefix sep (c # cs)
      then acc # split_acc sep [] (drop (length sep) (c # cs))
      else split_acc sep (acc @ [c]) cs)"
  by pat_completeness auto
termination
  by (relation "measure (\<lambda>(sep, acc, s). length s)") auto

definition split :: "string \<Rightarrow> string \<Rightarrow> string list" where
  "split text sep = split_acc sep [] text"

text \<open>\<^verbatim>\<open>xs[i]\<close> for \<open>i \<ge> 0\<close>: out of range raises \<^verbatim>\<open>IndexError\<close>.\<close>

definition item :: "'a list \<Rightarrow> nat \<Rightarrow> exn + 'a" where
  "item xs i = (if i < length xs then Inr (xs ! i) else Inl IndexError)"

text \<open>\<^verbatim>\<open>sep.join(parts)\<close>.\<close>

fun join :: "string \<Rightarrow> string list \<Rightarrow> string" where
  "join sep [] = []"
| "join sep [x] = x"
| "join sep (x # y # ys) = x @ sep @ join sep (y # ys)"

section \<open>The structured-response parser\<close>

definition fence :: string where
  "fence = ''```''"

definition json_fence :: string where
  "json_fence = ''```json''"

text \<open>
  The fence handling is written twice in the source, with the same text: in
  \<^verbatim>\<open>_parse_json_from_text\<close> (after a first \<^verbatim>\<open>strip\<close>) and inline in \<^verbatim>\<open>grade_essay\<close>:
  \<^verbatim>\<open>
  if "```json" in text:
      text = text.split("```json")[1].split("```")[0]
  elif "```" in text:
      text = text.split("```")[1].split("```")[0]
  \<close>
\<close>

definition fenced_candidate :: "string \<Rightarrow> exn + string" where
  "fenced_candidate text =
     (if contains json_fence text
      then then_do (item (split text json_fence) 1) (\<lambda>t. item (split t fence) 0)
      else if contains fence text
      then then_do (item (split text fence) 1) (\<lambda>t. item (split t fence) 0)
      else Inr text)"

text \<open>\<^verbatim>\<open>json.loads\<close> is the standard library's; it is a parameter \<open>loads\<close> of the model,
  returning the value or the exception it raises (\<^verbatim>\<open>JSONDecodeError\<close> for a text that
  is not JSON).\<close>

type_synonym loader = "string \<Rightarrow> exn + json"

definition parse_json_from_text :: "loader \<Rightarrow> string \<Rightarrow> exn + json" where
  "parse_json_from_text loads text =
     then_do (fenced_candidate (strip text)) (\<lambda>t. loads (strip t))"

section \<open>The model's reply\<close>

text \<open>The content of a reply is a string or a list of parts, each a string or a dict;
  \<^verbatim>\<open>part.get("text", "")\<close> reads a dict part, whose values are taken to be strings. The
  parts are joined with a newline.\<close>

datatype part = Text_part string | Dict_part "(string \<times> string) list"

datatype content = Plain string | Parts "part list"

definition part_text :: "part \<Rightarrow> string" where
  "part_text p =
     (case p of
        Text_part s \<Rightarrow> s
      | Dict_part d \<Rightarrow> (case map_of d ''text'' of None \<Rightarrow> [] | Some t \<Rightarrow> t))"

definition flatten_content :: "content \<Rightarrow> string" where
  "flatten_content c =
     (case c of Plain s \<Rightarrow> s | Parts ps \<Rightarrow> join [CHR 0x0A] (map part_text ps))"

type_synonym llm = "string \<Rightarrow> content"

definition invoke_llm :: "llm \<Rightarrow> string \<Rightarrow> string" where
  "invoke_llm model prompt = flatten_content (model prompt)"

section \<open>Printing and serialising JSON values\<close>

definition hex_digit :: "nat \<Rightarrow> char" where
  "hex_digit d = ''0123456789abcdef'' ! (d mod 16)"

definition hex2 :: "nat \<Rightarrow> string" where
  "hex2 n = [hex_digit (n div 16), hex_digit n]"

text \<open>\<^verbatim>\<open>repr\<close> of a \<^verbatim>\<open>str\<close>: single quotes unless the text has a single quote and no
  double quote; the quote and the backslash are escaped, TAB, LF and CR get their
  letters, every other non-printable code point is written \<^verbatim>\<open>\xhh\<close>.\<close>

definition printable :: "char \<Rightarrow> bool" where
  "printable c = (let n = (of_char c :: nat) in (32 \<le> n \<and> n < 127) \<or> (161 \<le> n \<and> n \<noteq> 173))"

definition repr_char :: "char \<Rightarrow> char \<Rightarrow> string" where
  "repr_char q c =
     (if c = q \<or> c = CHR 0x5C then [CHR 0x5C, c]
      else if c = CHR 0x09 then [CHR 0x5C, CHR ''t'']
      else if c = CHR 0x0A then [CHR 0x5C, CHR ''n'']
      else if c = CHR 0x0D then [CHR 0x5C, CHR ''r'']
      else if printable c then [c]
      else [CHR 0x5C, CHR ''x''] @ hex2 (of_char c))"

definition repr_str :: "string \<Rightarrow> string" where
  "repr_str s =
     (let q = (if CHR 0x27 \<in> set s \<and> CHR 0x22 \<notin> set s then CHR 0x22 else CHR 0x27)
      in [q] @ concat (map (repr_char q) s) @ [q])"

fun py_repr :: "json \<Rightarrow> string" where
  "py_repr JNull = ''None''"
| "py_repr (JBool b) = (if b then ''True'' else ''False'')"
| "py_repr (JNumber r) = r"
| "py_repr (JString s) = repr_str s"
| "py_repr (JArray xs) = ''['' @ join '', '' (map py_repr xs) @ '']''"
| "py_repr (JObject kvs) =
     ''{'' @ join '', '' (map (\<lambda>(k, v). repr_str k @ '': '' @ py_repr v) kvs) @ ''}''"

text \<open>\<^verbatim>\<open>str(r)\<close>.\<close>

definition py_str :: "json \<Rightarrow> string" where
  "py_str j = (case j of JString s \<Rightarrow> s | _ \<Rightarrow> py_repr j)"

text \<open>\<^verbatim>\<open>json.dumps(value, indent=2)\<close>: \<^verbatim>\<open>ensure_ascii\<close> is on, the separators are
  \<^verbatim>\<open>","\<close> and \<^verbatim>\<open>": "\<close>, an empty container is written closed.\<close>

definition escape_char :: "char \<Rightarrow> string" where
  "escape_char c =
     (if c = CHR 0x5C then [CHR 0x5C, CHR 0x5C]
      else if c = CHR 0x22 then [CHR 0x5C, CHR 0x22]
      else if c = CHR 0x08 then [CHR 0x5C, CHR ''b'']
      else if c = CHR 0x0C then [CHR 0x5C, CHR ''f'']
      else if c = CHR 0x0A then [CHR 0x5C, CHR ''n'']
      else if c = CHR 0x0D then [CHR 0x5C, CHR ''r'']
      else if c = CHR 0x09 then [CHR 0x5C, CHR ''t'']
      else if 32 \<le> (of_char c :: nat) \<and> (of_char c :: nat) \<le> 126 then [c]
      else [CHR 0x5C, CHR ''u'', CHR ''0'', CHR ''0''] @ hex2 (of_char c))"

definition encode_str :: "string \<Rightarrow> string" where
  "encode_str s = [CHR 0x22] @ concat (map escape_char s) @ [CHR 0x22]"

definition encode_number :: "string \<Rightarrow> string" where
  "encode_number r =
     (if r = ''nan'' then ''NaN''
      else if r = ''inf'' then ''Infinity''
      else if r = ''-inf'' then ''-Infinity''
      else r)"

definition newline_indent :: "nat \<Rightarrow> string" where
  "newline_indent level = CHR 0x0A # replicate (2 * level) CHR '' ''"

fun dumps_at :: "nat \<Rightarrow> json \<Rightarrow> string" where
  "dumps_at level JNull = ''null''"
| "dumps_at level (JBool b) = (if b then ''true'' else ''false'')"
| "dumps_at level (JNumber r) = encode_number r"
| "dumps_at level (JString s) = encode_str s"
| "dumps_at level (JArray xs) =
     (if xs = [] then ''[]''
      else ''['' @ newline_indent (Suc level)
           @ join ('','' @ newline_indent (Suc level)) (map (dumps_at (Suc level)) xs)
           @ newline_indent level @ '']'')"
| "dumps_at level (JObject kvs) =
     (if kvs = [] then ''{}''
      else ''{'' @ newline_indent (Suc level)
           @ join ('','' @ newline_indent (Suc level))
               (map (\<lambda>(k, v). encode_str k @ '': '' @ dumps_at (Suc level) v) kvs)
           @ newline_indent level @ ''}'')"

definition dumps :: "json \<Rightarrow> string" where
  "dumps j = dumps_at 0 j"

section \<open>The bibliography pipeline\<close>

text \<open>The handlers of the pipeline are \<^verbatim>\<open>except (json.JSONDecodeError, IndexError)\<close>.\<close>

definition caught :: "exn \<Rightarrow> bool" where
  "caught e = (e = JSONDecodeError \<or> e = IndexError)"

definition extract_prompt :: "string \<Rightarrow> string" where
  "extract_prompt essay_text =
     ''Extract ALL bibliographic references from the following essay text. ''
       @ ''Return ONLY a JSON array of strings, where each string is one full reference ''
       @ ''exactly as it appears in the essay. If there are no references, return an empty array [].''
       @ [CHR 0x0A, CHR 0x0A] @ ''Essay text:'' @ [CHR 0x0A] @ essay_text"

definition extract_references_with_llm :: "loader \<Rightarrow> llm \<Rightarrow> string \<Rightarrow> exn + string list" where
  "extract_references_with_llm loads model essay_text =
     (let content = invoke_llm model (extract_prompt essay_text)
      in case parse_json_from_text loads content of
           Inr (JArray refs) \<Rightarrow> Inr (map py_str refs)
         | Inr _ \<Rightarrow> Inr []
         | Inl e \<Rightarrow> if caught e then Inr [] else Inl e)"

text \<open>The entry of \<^verbatim>\<open>ref_details\<close> for one record.\<close>

definition ref_detail :: "ref_record \<Rightarrow> json" where
  "ref_detail r =
     JObject [(''reference'', JString (reference r)),
              (''search_urls'', JArray (map JString (search_urls r))),
              (''search_notes'', ref_notes r)]"

text \<open>The prompt of the verifier. The source text has three code points after
  \<open>skeptical\<close>, two of them above 255: these two are written as their UTF-8 bytes.\<close>

definition verify_prompt :: "ref_record list \<Rightarrow> string" where
  "verify_prompt references =
     ''You are verifying bibliographic references. For each reference below, ''
       @ ''I provide the Google search result URLs. Assess whether the reference ''
       @ ''is likely REAL and correctly cited (correct authors, year, title, journal/publisher). ''
       @ ''Be skeptical '' @ [CHR 0xE2, CHR 0xE2, CHR 0x82, CHR 0xAC, CHR 0xE2, CHR 0x80, CHR 0x9D]
       @ '' if the URLs don'' @ [CHR 0x27] @ ''t clearly confirm the reference, mark it unverified.''
       @ [CHR 0x0A, CHR 0x0A] @ ''References:'' @ [CHR 0x0A]
       @ dumps (JArray (map ref_detail references))
       @ [CHR 0x0A, CHR 0x0A] @ ''Respond with a JSON array where each element has:'' @ [CHR 0x0A]
       @ ''  {'' @ [CHR 0x22] @ ''reference'' @ [CHR 0x22] @ '': '' @ [CHR 0x22] @ ''...'' @ [CHR 0x22]
       @ '', '' @ [CHR 0x22] @ ''verified'' @ [CHR 0x22] @ '': true/false, ''
       @ [CHR 0x22] @ ''notes'' @ [CHR 0x22] @ '': '' @ [CHR 0x22] @ ''explanation'' @ [CHR 0x22] @ ''}''
       @ [CHR 0x0A] @ ''Return ONLY the JSON array.''"

text \<open>
  \<^verbatim>\<open>llm_map = {r["reference"]: r for r in llm_results}\<close>: subscripting anything but a
  dict with a string raises \<^verbatim>\<open>TypeError\<close>, a dict without the key raises \<^verbatim>\<open>KeyError\<close>, a
  list or dict as key raises \<^verbatim>\<open>TypeError\<close> (unhashable); a later element replaces an
  earlier one with the same key. The map is only ever asked for the reference string of
  a record, so a key that is not a string (\<^verbatim>\<open>None\<close>, a bool, a number) is left out: it
  can never be found.
\<close>

fun llm_map_of :: "json list \<Rightarrow> (string \<rightharpoonup> (string \<times> json) list) \<Rightarrow> exn + (string \<rightharpoonup> (string \<times> json) list)" where
  "llm_map_of [] m = Inr m"
| "llm_map_of (r # rs) m =
     (case r of
        JObject kvs \<Rightarrow>
          (case map_of kvs ''reference'' of
             None \<Rightarrow> Inl KeyError
           | Some (JString k) \<Rightarrow> llm_map_of rs (m(k \<mapsto> kvs))
           | Some (JArray _) \<Rightarrow> Inl TypeError
           | Some (JObject _) \<Rightarrow> Inl TypeError
           | Some _ \<Rightarrow> llm_map_of rs m)
      | _ \<Rightarrow> Inl TypeError)"

text \<open>\<^verbatim>\<open>d.get(key, default)\<close> on a dict.\<close>

definition dict_get :: "(string \<times> json) list \<Rightarrow> string \<Rightarrow> json \<Rightarrow> json" where
  "dict_get d k dflt = (case map_of d k of None \<Rightarrow> dflt | Some v \<Rightarrow> v)"

text \<open>The body of the merge loop for one record.\<close>

definition merge_verdict :: "(string \<rightharpoonup> (string \<times> json) list) \<Rightarrow> ref_record \<Rightarrow> ref_record" where
  "merge_verdict llm_map ref =
     (case llm_map (reference ref) of
        None \<Rightarrow> ref
      | Some llm_ref \<Rightarrow>
          ref\<lparr>verified := dict_get llm_ref ''verified'' (JBool False),
              ref_notes := dict_get llm_ref ''notes'' (ref_notes ref)\<rparr>)"

definition parse_marker :: string where
  "parse_marker = '' (LLM verification failed to parse)''"

text \<open>
  The records are dicts mutated in place and the list handed in is the list returned;
  the model returns the updated list. The records of a list are distinct objects, as
  they are when they come from \<^verbatim>\<open>search_single_reference\<close>, possibly through earlier
  runs of the verifier. Their notes are then strings, or values that an earlier merge
  took from a verdict: two records hold one and the same list object as notes exactly
  when one verdict gave it to both, that is when they have the same reference string
  (and then the same notes).

  \<^verbatim>\<open>ref["notes"] += marker\<close>: a string is replaced by the longer string; a list is
  extended in place by the characters of the marker, one string each, once for every
  record of the input that holds this list; for any other value \<^verbatim>\<open>+=\<close> raises
  \<^verbatim>\<open>TypeError\<close>.
\<close>

definition holders :: "ref_record list \<Rightarrow> ref_record \<Rightarrow> nat" where
  "holders refs ref =
     length (filter (\<lambda>r. reference r = reference ref \<and> ref_notes r = ref_notes ref) refs)"

definition add_marker :: "ref_record list \<Rightarrow> ref_record \<Rightarrow> exn + ref_record" where
  "add_marker refs ref =
     (case ref_notes ref of
        JString s \<Rightarrow> Inr (ref\<lparr>ref_notes := JString (s @ parse_marker)\<rparr>)
      | JArray xs \<Rightarrow>
          Inr (ref\<lparr>ref_notes :=
                 JArray (xs @ concat (replicate (holders refs ref) (map (\<lambda>c. JString [c]) parse_marker)))\<rparr>)
      | _ \<Rightarrow> Inl TypeError)"

fun add_markers_in :: "ref_record list \<Rightarrow> ref_record list \<Rightarrow> exn + ref_record list" where
  "add_markers_in all [] = Inr []"
| "add_markers_in all (ref # refs) =
     then_do (add_marker all ref)
       (\<lambda>ref'. then_do (add_markers_in all refs) (\<lambda>refs'. Inr (ref' # refs')))"

definition add_markers :: "ref_record list \<Rightarrow> exn + ref_record list" where
  "add_markers refs = add_markers_in refs refs"

definition verify_references_with_llm :: "loader \<Rightarrow> llm \<Rightarrow> ref_record list \<Rightarrow> exn + ref_record list" where
  "verify_references_with_llm loads model references =
     (let refs_with_urls = filter (\<lambda>r. search_urls r \<noteq> []) references
      in if refs_with_urls = [] then Inr references
         else
           (let content = invoke_llm model (verify_prompt references)
            in case then_do (parse_json_from_text loads content)
                      (\<lambda>llm_results.
                         case llm_results of
                           JArray rs \<Rightarrow>
                             then_do (llm_map_of rs Map.empty)
                               (\<lambda>llm_map. Inr (map (merge_verdict llm_map) references))
                         | _ \<Rightarrow> Inr references) of
                 Inr out \<Rightarrow> Inr out
               | Inl e \<Rightarrow> if caught e then add_markers references else Inl e))"

text \<open>The searches of \<^verbatim>\<open>[search_single_reference(ref) for ref in ref_strings]\<close>, one
  after the other.\<close>

fun search_all :: "searcher \<Rightarrow> string list \<Rightarrow> event list \<Rightarrow> ref_record list result \<times> event list" where
  "search_all search [] tr = (Returns [], tr)"
| "search_all search (ref # refs) tr =
     (case search_single_reference search ref tr of
        (Returns r, tr1) \<Rightarrow>
          (case search_all search refs tr1 of
             (Returns rs, tr2) \<Rightarrow> (Returns (r # rs), tr2)
           | (Raises e, tr2) \<Rightarrow> (Raises e, tr2)
           | (Never_returns, tr2) \<Rightarrow> (Never_returns, tr2))
      | (Raises e, tr1) \<Rightarrow> (Raises e, tr1)
      | (Never_returns, tr1) \<Rightarrow> (Never_returns, tr1))"

text \<open>The pipeline returns the list of the verifier; an exception of the extractor or of
  the verifier leaves it; it never returns when a search never does.\<close>

definition verify_bibliography ::
  "loader \<Rightarrow> llm \<Rightarrow> searcher \<Rightarrow> string \<Rightarrow> event list \<Rightarrow> ref_record list result \<times> event list" where
  "verify_bibliography loads model search essay_text tr =
     (case extract_references_with_llm loads model essay_text of
        Inl e \<Rightarrow> (Raises e, tr)
      | Inr ref_strings \<Rightarrow>
          if ref_strings = [] then (Returns [], tr)
          else (case search_all search ref_strings tr of
                  (Returns search_results, tr1) \<Rightarrow>
                    (of_sum (verify_references_with_llm loads model search_results), tr1)
                | (Raises e, tr1) \<Rightarrow> (Raises e, tr1)
                | (Never_returns, tr1) \<Rightarrow> (Never_returns, tr1)))"

section \<open>The grading agent\<close>

text \<open>
  \<open>agent\<close> stands for the agent built by \<^verbatim>\<open>create_grading_agent\<close> and run on
  \<^verbatim>\<open>GRADING_PROMPT.format(criteria_text=..., essay_text=...)\<close>: it gives the content of
  the last message, \<^verbatim>\<open>result["messages"][-1].content\<close>, for the two texts put in the fixed
  template. The result of \<^verbatim>\<open>grade_essay\<close> is the parsed JSON value or the dict with
  \<^verbatim>\<open>raw_response\<close> and \<^verbatim>\<open>parse_error\<close>.
\<close>

type_synonym grader = "string \<Rightarrow> string \<Rightarrow> content"

definition raw_envelope :: "string \<Rightarrow> json" where
  "raw_envelope final_message =
     JObject [(''raw_response'', JString final_message), (''parse_error'', JBool True)]"

definition grade_essay :: "loader \<Rightarrow> grader \<Rightarrow> string \<Rightarrow> string \<Rightarrow> exn + json" where
  "grade_essay loads agent criteria_text essay_text =
     (let final_message = flatten_content (agent criteria_text essay_text)
      in case then_do (fenced_candidate final_message) (\<lambda>t. loads (strip t)) of
           Inr v \<Rightarrow> Inr v
         | Inl e \<Rightarrow> if caught e then Inr (raw_envelope final_message) else Inl e)"

section \<open>The selection rule in the words of the specification\<close>

text \<open>
  An occurrence of \<open>sep\<close> in \<open>s\<close> at position \<open>p\<close>, and the first one. The text before
  the first occurrence is the whole text when there is none; the text after it starts
  behind the occurrence.
\<close>

definition occurs_at :: "string \<Rightarrow> string \<Rightarrow> nat \<Rightarrow> bool" where
  "occurs_at sep s p = (p \<le> length s \<and> prefix sep (drop p s))"

definition first_at :: "string \<Rightarrow> string \<Rightarrow> nat \<Rightarrow> bool" where
  "first_at sep s p = (occurs_at sep s p \<and> (\<forall>q \<in> set [0..<p]. \<not> occurs_at sep s q))"

fun before_first :: "string \<Rightarrow> string \<Rightarrow> string" where
  "before_first sep [] = []"
| "before_first sep (c # cs) = (if prefix sep (c # cs) then [] else c # before_first sep cs)"

fun after_first :: "string \<Rightarrow> string \<Rightarrow> string" where
  "after_first sep [] = []"
| "after_first sep (c # cs) =
     (if prefix sep (c # cs) then drop (length sep) (c # cs) else after_first sep cs)"

text \<open>The candidate as the specification words it: between the first \<^verbatim>\<open>```json\<close> and
  the next \<^verbatim>\<open>```\<close> after it; else between the first pair of \<^verbatim>\<open>```\<close>; else the text.\<close>

definition spec_candidate :: "string \<Rightarrow> string" where
  "spec_candidate text =
     (if contains json_fence text then before_first fence (after_first json_fence text)
      else if contains fence text then before_first fence (after_first fence text)
      else text)"

text \<open>The candidate as the two \<^verbatim>\<open>split\<close> calls cut it: the stretch after the first
  \<^verbatim>\<open>```json\<close> ends at the next \<^verbatim>\<open>```json\<close>, and is then cut at its first \<^verbatim>\<open>```\<close>.\<close>

definition split_candidate :: "string \<Rightarrow> string" where
  "split_candidate text =
     (if contains json_fence text
      then before_first fence (before_first json_fence (after_first json_fence text))
      else if contains fence text then before_first fence (after_first fence text)
      else text)"

section \<open>The merge in the words of the specification\<close>

text \<open>The verdict for a reference string: the last element of the reply whose
  \<^verbatim>\<open>reference\<close> is exactly that string.\<close>

fun verdict_for :: "json list \<Rightarrow> string \<Rightarrow> (string \<times> json) list option" where
  "verdict_for [] k = None"
| "verdict_for (v # vs) k =
     (case verdict_for vs k of
        Some kvs \<Rightarrow> Some kvs
      | None \<Rightarrow>
          (case v of
             JObject kvs \<Rightarrow> if map_of kvs ''reference'' = Some (JString k) then Some kvs else None
           | _ \<Rightarrow> None))"

definition with_verdict :: "json list \<Rightarrow> ref_record \<Rightarrow> ref_record" where
  "with_verdict rs r =
     (case verdict_for rs (reference r) of
        None \<Rightarrow> r
      | Some kvs \<Rightarrow>
          r\<lparr>verified := dict_get kvs ''verified'' (JBool False),
            ref_notes := dict_get kvs ''notes'' (ref_notes r)\<rparr>)"

text \<open>An element of the reply is a verdict when it is an object whose \<^verbatim>\<open>reference\<close> is
  a string.\<close>

definition is_verdict :: "json \<Rightarrow> bool" where
  "is_verdict v =
     (case v of
        JObject kvs \<Rightarrow> (case map_of kvs ''reference'' of Some (JString k) \<Rightarrow> True | _ \<Rightarrow> False)
      | _ \<Rightarrow> False)"

definition is_array :: "json \<Rightarrow> bool" where
  "is_array v = (case v of JArray rs \<Rightarrow> True | _ \<Rightarrow> False)"



text \<open>The queries of the searches in a trace, in the order issued.\<close>

fun searches :: "event list \<Rightarrow> string list" where
  "searches [] = []"
| "searches (Search q # tr) = q # searches tr"
| "searches (Sleep d # tr) = searches tr"

text \<open>The closing \<^verbatim>\<open>```\<close> found after the opening starts one or two characters before a
  later \<^verbatim>\<open>```json\<close> (four or five backquotes, then \<^verbatim>\<open>json\<close>): the one case where the two
  ways of cutting differ.\<close>

definition closing_fence_overlaps :: "string \<Rightarrow> bool" where
  "closing_fence_overlaps rest =
     (\<exists>q \<in> set [0..<Suc (length rest)]. first_at fence rest q
         \<and> (occurs_at json_fence rest (q + 1) \<or> occurs_at json_fence rest (q + 2)))"

section \<open>Sample environments\<close>

text \<open>
  An excerpt of \<^verbatim>\<open>json.loads\<close>, for evaluating the program at concrete inputs: on each
  text listed it does what \<^verbatim>\<open>json.loads\<close> does; it is only ever applied to these texts
  and to texts that are not JSON and for which \<^verbatim>\<open>json.loads\<close> raises \<^verbatim>\<open>JSONDecodeError\<close>.
  One of the texts listed is 1200 opening brackets: it is not JSON, and \<^verbatim>\<open>json.loads\<close>
  gives up on its depth with \<^verbatim>\<open>RecursionError\<close>.
\<close>

definition deep_text :: string where
  "deep_text = replicate 1200 CHR ''[''"

definition verdict_text :: string where
  "verdict_text =
     ''[{'' @ [CHR 0x22] @ ''reference'' @ [CHR 0x22] @ '': '' @ [CHR 0x22] @ ''A'' @ [CHR 0x22]
       @ '', '' @ [CHR 0x22] @ ''verified'' @ [CHR 0x22] @ '': true, ''
       @ [CHR 0x22] @ ''notes'' @ [CHR 0x22] @ '': '' @ [CHR 0x22] @ ''ok'' @ [CHR 0x22] @ ''}]''"

definition refs_text :: string where
  "refs_text = ''['' @ [CHR 0x22] @ ''A'' @ [CHR 0x22] @ '']''"

definition sample_loads :: loader where
  "sample_loads s =
     (if s = ''1'' then Inr (JNumber ''1'')
      else if s = deep_text then Inl RecursionError
      else if s = refs_text then Inr (JArray [JString ''A''])
      else if s = ''{}'' then Inr (JObject [])
      else if s = ''[]'' then Inr (JArray [])
      else if s = ''[1]'' then Inr (JArray [JNumber ''1''])
      else if s = ''[{}]'' then Inr (JArray [JObject []])
      else if s = verdict_text
        then Inr (JArray [JObject [(''reference'', JString ''A''), (''verified'', JBool True),
                                   (''notes'', JString ''ok'')]])
      else Inl JSONDecodeError)"

text \<open>Judges with a fixed reply, and one that answers the extraction prompt with one
  reference and the verification prompt with an array holding a number.\<close>

definition judge_verdict :: llm where
  "judge_verdict prompt = Plain verdict_text"

definition judge_object :: llm where
  "judge_object prompt = Plain ''{}''"

definition judge_number_array :: llm where
  "judge_number_array prompt = Plain ''[1]''"

definition judge_empty_verdict :: llm where
  "judge_empty_verdict prompt = Plain ''[{}]''"

definition judge_prose :: llm where
  "judge_prose prompt = Plain ''not json''"

definition judge_deep :: llm where
  "judge_deep prompt = Plain deep_text"

definition judge_fenced :: llm where
  "judge_fenced prompt = Plain ''Sure: ```json [] ```''"

definition pipeline_model :: llm where
  "pipeline_model prompt = (if prefix ''Extract ALL'' prompt then Plain refs_text else Plain ''[1]'')"

definition pipeline_model_ok :: llm where
  "pipeline_model_ok prompt = (if prefix ''Extract ALL'' prompt then Plain refs_text else Plain verdict_text)"

definition silent_model :: llm where
  "silent_model prompt = Plain ''[]''"

definition agent_two_parts :: grader where
  "agent_two_parts criteria_text essay_text = Parts [Text_part ''abc'', Text_part ''def'']"



definition search_times_out :: searcher where
  "search_times_out tr q = TimedOut"

definition search_fails :: searcher where
  "search_fails tr q = Raised ''HTTP 429''"

definition search_never_ends :: searcher where
  "search_never_ends tr q = Never_ends"

definition search_raises_timeout :: searcher where
  "search_raises_timeout tr q = Raised_timeout ''The read operation timed out''"

definition search_finds_one :: searcher where
  "search_finds_one tr q = Returned [''https://example.org/a'']"

definition record_A :: ref_record where
  "record_A = \<lparr>reference = ''A'', verified = JBool False, search_urls = [''https://example.org/a''],
               ref_notes = JString ''Found 1 search results.''\<rparr>"


definition record_B :: ref_record where
  "record_B = \<lparr>reference = ''B'', verified = JBool False, search_urls = [],
               ref_notes = JString ''No search results found. Reference may not exist.''\<rparr>"

section \<open>Properties of the searcher\<close>

text \<open>\<open>str_nat\<close> writes the decimal numeral of its argument.\<close>

lemma str_nat_decimal: "decimal_value (str_nat n) = n"
proof (induction n rule: str_nat.induct)
  case (1 n)
  show ?case
  proof (cases "n < 10")
    case True
    then have "(48 + n) mod 256 = 48 + n" by simp
    with True show ?thesis
      by (subst str_nat.simps) (simp add: decimal_value_def digit_char_def)
  next
    case False
    have "n mod 10 < 10" by simp
    then have m: "(48 + n mod 10) mod 256 = 48 + n mod 10" by simp
    from False have "decimal_value (str_nat (n div 10)) = n div 10" by (rule 1)
    with False m show ?thesis
      by (subst str_nat.simps) (simp add: decimal_value_def digit_char_def)
  qed
qed

text \<open>
  What the searcher hands back when the call ends. Unless the call never ends,
  \<^verbatim>\<open>search_single_reference\<close> returns a record and no exception leaves it: after a
  timeout of the wait, or a \<^verbatim>\<open>TimeoutError\<close> of the call itself, the record has no URLs
  and the note \<^verbatim>\<open>Search timed out.\<close>; after any other exception it has no URLs and the
  note \<^verbatim>\<open>Search failed: \<close> followed by the cause; after an empty result the note says the
  reference may not exist; after one or more URLs the note gives their number. When the
  call never ends, neither does \<^verbatim>\<open>search_single_reference\<close>.
\<close>

theorem search_single_reference_when_the_call_ends:
  "((search tr ref = TimedOut \<or> (\<exists>cause. search tr ref = Raised_timeout cause)) \<longrightarrow>
      fst (search_single_reference search ref tr) =
        Returns \<lparr>reference = ref, verified = JBool False, search_urls = [],
                 ref_notes = JString ''Search timed out.''\<rparr>)
   \<and> (\<forall>cause. search tr ref = Raised cause \<longrightarrow>
      fst (search_single_reference search ref tr) =
        Returns \<lparr>reference = ref, verified = JBool False, search_urls = [],
                 ref_notes = JString (''Search failed: '' @ cause)\<rparr>)
   \<and> (search tr ref = Returned [] \<longrightarrow>
      fst (search_single_reference search ref tr) =
        Returns \<lparr>reference = ref, verified = JBool False, search_urls = [],
                 ref_notes = JString ''No search results found. Reference may not exist.''\<rparr>)
   \<and> (\<forall>urls. urls \<noteq> [] \<and> search tr ref = Returned urls \<longrightarrow>
      fst (search_single_reference search ref tr) =
        Returns \<lparr>reference = ref, verified = JBool False, search_urls = urls,
                 ref_notes = JString (''Found '' @ str_nat (length urls) @ '' search results.'')\<rparr>
      \<and> decimal_value (str_nat (length urls)) = length urls)
   \<and> (search tr ref = Never_ends \<longrightarrow> fst (search_single_reference search ref tr) = Never_returns)
   \<and> (\<forall>e. fst (search_single_reference search ref tr) \<noteq> Raises e)
   \<and> contains ''timed out'' ''Search timed out.''"
  by (cases "search tr ref") (auto simp: search_single_reference_def Let_def str_nat_decimal)

text \<open>
  C1. The code at the failing inputs. For a search call that never ends, the wait times
  out and the handler writes the note, but \<^verbatim>\<open>search_single_reference\<close> never returns the
  record: its \<^verbatim>\<open>return\<close> is inside the \<^verbatim>\<open>with\<close> block, which waits for the call. And for
  a search call that raises \<^verbatim>\<open>TimeoutError\<close> itself, the record says
  \<^verbatim>\<open>Search timed out.\<close>, not \<^verbatim>\<open>Search failed: \<close> with the cause.
\<close>

theorem search_single_reference_waits_for_endless_search:
  "search_single_reference search_never_ends ''Smith 2020'' [] =
     (Never_returns, [Search ''Smith 2020''])
   \<and> search_single_reference search_raises_timeout ''Smith 2020'' [] =
     (Returns \<lparr>reference = ''Smith 2020'', verified = JBool False, search_urls = [],
               ref_notes = JString ''Search timed out.''\<rparr>,
      [Search ''Smith 2020''])"
  by (simp add: search_single_reference_def search_never_ends_def search_raises_timeout_def)

text \<open>
  C2, as amended. Both \<^verbatim>\<open>search_single_reference\<close> and the agent tool \<^verbatim>\<open>search_reference\<close>
  sleep half a second exactly when the search call returned (with or without results):
  the trace then ends with the search and the sleep. After a timeout or an exception the
  trace ends with the search alone.
\<close>

theorem sleep_after_returned_search_only:
  "(\<forall>urls. search tr ref = Returned urls \<longrightarrow>
       snd (search_single_reference search ref tr) = tr @ [Search ref, Sleep (1 / 2)]
     \<and> snd (search_reference search ref tr) = tr @ [Search ref, Sleep (1 / 2)])
   \<and> ((\<forall>urls. search tr ref \<noteq> Returned urls) \<longrightarrow>
       snd (search_single_reference search ref tr) = tr @ [Search ref]
     \<and> snd (search_reference search ref tr) = tr @ [Search ref])"
  by (cases "search tr ref") (simp_all add: search_single_reference_def search_reference_def Let_def)

theorem sleep_after_returned_search_only_witness:
  "snd (search_single_reference (\<lambda>tr q. Returned []) ''Smith 2020'' []) = [Search ''Smith 2020'', Sleep (1 / 2)]
   \<and> snd (search_reference (\<lambda>tr q. Returned [''https://a.org'']) ''Smith 2020'' []) = [Search ''Smith 2020'', Sleep (1 / 2)]
   \<and> snd (search_single_reference (\<lambda>tr q. TimedOut) ''Smith 2020'' []) = [Search ''Smith 2020'']"
  using sleep_after_returned_search_only [of "\<lambda>tr q. Returned []" "[]" "''Smith 2020''"]
        sleep_after_returned_search_only [of "\<lambda>tr q. Returned [''https://a.org'']" "[]" "''Smith 2020''"]
        sleep_after_returned_search_only [of "\<lambda>tr q. TimedOut" "[]" "''Smith 2020''"]
  by simp

text \<open>The claim as stated fails: no sleep after a timeout or an exception, in either variant.\<close>

theorem sleep_skipped_on_timeout_counterexample:
  "snd (search_single_reference search_times_out ''Smith 2020'' []) = [Search ''Smith 2020'']
   \<and> snd (search_reference search_times_out ''Smith 2020'' []) = [Search ''Smith 2020'']
   \<and> snd (search_single_reference search_fails ''Smith 2020'' []) = [Search ''Smith 2020'']
   \<and> snd (search_reference search_fails ''Smith 2020'' []) = [Search ''Smith 2020'']"
  by (simp add: search_single_reference_def search_reference_def search_times_out_def search_fails_def)

section \<open>Properties of the parser\<close>

text \<open>The parts of \<^verbatim>\<open>split\<close>, by first occurrences.\<close>

lemma before_first_none: "\<not> contains sep s \<Longrightarrow> before_first sep s = s"
  by (induction s) auto

lemma split_acc_char:
  "sep \<noteq> [] \<Longrightarrow> split_acc sep acc s =
     (if contains sep s then (acc @ before_first sep s) # split_acc sep [] (after_first sep s)
      else [acc @ s])"
proof (induction sep acc s rule: split_acc.induct)
  case (1 sep acc)
  then show ?case by simp
next
  case (2 sep acc c cs)
  show ?case
  proof (cases "prefix sep (c # cs)")
    case True
    with 2 show ?thesis by simp
  next
    case False
    with 2 show ?thesis by simp
  qed
qed

lemma split_first: "sep \<noteq> [] \<Longrightarrow> item (split t sep) 0 = Inr (before_first sep t)"
  by (subst split_def, subst split_acc_char) (auto simp: item_def before_first_none)

lemma split_second:
  assumes "sep \<noteq> []" "contains sep t"
  shows "item (split t sep) (Suc 0) = Inr (before_first sep (after_first sep t))"
proof -
  have "split t sep = before_first sep t # split_acc sep [] (after_first sep t)"
    using assms by (subst split_def, subst split_acc_char) auto
  moreover have "split_acc sep [] (after_first sep t) =
      (if contains sep (after_first sep t)
       then before_first sep (after_first sep t) # split_acc sep [] (after_first sep (after_first sep t))
       else [after_first sep t])"
    using assms(1) by (subst split_acc_char) auto
  ultimately show ?thesis
    by (auto simp: item_def before_first_none)
qed

lemma before_first_prefix: "prefix (before_first sep s) s"
  by (induction s) auto

lemma not_prefix_before_first:
  assumes "\<not> prefix sep (c # cs)"
  shows "\<not> prefix sep (c # before_first sep' cs)"
proof
  assume "prefix sep (c # before_first sep' cs)"
  moreover have "prefix (c # before_first sep' cs) (c # cs)"
    using before_first_prefix by simp
  ultimately have "prefix sep (c # cs)" by (rule prefix_order.trans)
  with assms show False by simp
qed

lemma before_first_idem: "before_first sep (before_first sep s) = before_first sep s"
proof (induction s)
  case Nil
  then show ?case by simp
next
  case (Cons c cs)
  show ?case
  proof (cases "prefix sep (c # cs)")
    case True
    then show ?thesis by simp
  next
    case False
    then show ?thesis using not_prefix_before_first [OF False, of sep] Cons by simp
  qed
qed

lemma fences_nonempty: "fence \<noteq> []" "json_fence \<noteq> []"
  by (simp_all add: fence_def json_fence_def)

lemma fenced_candidate_split: "fenced_candidate text = Inr (split_candidate text)"
  by (simp add: fenced_candidate_def split_candidate_def split_first split_second
        fences_nonempty then_do_def before_first_idem)

text \<open>What \<open>before_first\<close> and \<open>after_first\<close> are, by positions.\<close>

lemma occurs_at_0: "occurs_at sep s 0 = prefix sep s"
  by (simp add: occurs_at_def)

lemma occurs_at_Suc: "occurs_at sep (c # cs) (Suc p) = occurs_at sep cs p"
  by (simp add: occurs_at_def)

lemma contains_occurs: "contains sep s = (\<exists>p. occurs_at sep s p)"
proof (induction s)
  case Nil
  then show ?case by (auto simp: occurs_at_def)
next
  case (Cons c cs)
  show ?case
  proof
    assume "contains sep (c # cs)"
    then consider "prefix sep (c # cs)" | "contains sep cs" by auto
    then show "\<exists>p. occurs_at sep (c # cs) p"
    proof cases
      case 1
      then show ?thesis using occurs_at_0 by blast
    next
      case 2
      then obtain p where "occurs_at sep cs p" using Cons by blast
      then show ?thesis using occurs_at_Suc by blast
    qed
  next
    assume "\<exists>p. occurs_at sep (c # cs) p"
    then obtain p where p: "occurs_at sep (c # cs) p" by blast
    show "contains sep (c # cs)"
    proof (cases p)
      case 0
      then show ?thesis using p by (simp add: occurs_at_0)
    next
      case (Suc q)
      then show ?thesis using p Cons by (auto simp: occurs_at_Suc)
    qed
  qed
qed

lemma first_at_alt: "first_at sep s p = (occurs_at sep s p \<and> (\<forall>q<p. \<not> occurs_at sep s q))"
  unfolding first_at_def set_upt by auto

lemma first_at_0: "prefix sep s \<Longrightarrow> first_at sep s 0"
  by (simp add: first_at_alt occurs_at_0)

lemma first_at_prefix: "prefix sep s \<Longrightarrow> first_at sep s p \<Longrightarrow> p = 0"
  by (cases p) (auto simp: first_at_alt occurs_at_0)

lemma first_at_Suc:
  "\<not> prefix sep (c # cs) \<Longrightarrow> first_at sep (c # cs) (Suc q) = first_at sep cs q"
  by (simp add: first_at_alt occurs_at_Suc occurs_at_0 All_less_Suc2)

lemma first_at_not_0: "\<not> prefix sep s \<Longrightarrow> first_at sep s p \<Longrightarrow> \<exists>q. p = Suc q"
  by (cases p) (auto simp: first_at_alt occurs_at_0)

lemma before_first_take: "first_at sep s p \<Longrightarrow> before_first sep s = take p s"
proof (induction s arbitrary: p)
  case Nil
  then show ?case by simp
next
  case (Cons c cs)
  show ?case
  proof (cases "prefix sep (c # cs)")
    case True
    then show ?thesis using first_at_prefix [OF True Cons.prems] by simp
  next
    case False
    then obtain q where q: "p = Suc q" using first_at_not_0 Cons.prems by blast
    then have "first_at sep cs q" using Cons.prems False first_at_Suc by simp
    then show ?thesis using Cons.IH q False by simp
  qed
qed

lemma after_first_drop: "first_at sep s p \<Longrightarrow> after_first sep s = drop (p + length sep) s"
proof (induction s arbitrary: p)
  case Nil
  then show ?case by simp
next
  case (Cons c cs)
  show ?case
  proof (cases "prefix sep (c # cs)")
    case True
    then show ?thesis using first_at_prefix [OF True Cons.prems] by simp
  next
    case False
    then obtain q where q: "p = Suc q" using first_at_not_0 Cons.prems by blast
    then have "first_at sep cs q" using Cons.prems False first_at_Suc by simp
    then show ?thesis using Cons.IH q False by simp
  qed
qed

lemma contains_first_at: "contains sep s \<Longrightarrow> \<exists>p. first_at sep s p"
proof (induction s)
  case Nil
  then show ?case by (auto simp: first_at_alt occurs_at_def)
next
  case (Cons c cs)
  show ?case
  proof (cases "prefix sep (c # cs)")
    case True
    then show ?thesis using first_at_0 by blast
  next
    case False
    then have "contains sep cs" using Cons.prems by simp
    then obtain q where "first_at sep cs q" using Cons.IH by blast
    then have "first_at sep (c # cs) (Suc q)" using False first_at_Suc by simp
    then show ?thesis by blast
  qed
qed

text \<open>Cutting at the next \<^verbatim>\<open>```json\<close> first loses nothing unless the closing fence overlaps it.\<close>

lemma overlaps_iff:
  "closing_fence_overlaps x =
     (\<exists>q. first_at fence x q \<and> (occurs_at json_fence x (q + 1) \<or> occurs_at json_fence x (q + 2)))"
proof
  assume "closing_fence_overlaps x"
  then show "\<exists>q. first_at fence x q \<and> (occurs_at json_fence x (q + 1) \<or> occurs_at json_fence x (q + 2))"
    unfolding closing_fence_overlaps_def by blast
next
  assume "\<exists>q. first_at fence x q \<and> (occurs_at json_fence x (q + 1) \<or> occurs_at json_fence x (q + 2))"
  then obtain q where q: "first_at fence x q"
      "occurs_at json_fence x (q + 1) \<or> occurs_at json_fence x (q + 2)" by blast
  from q(1) have "q \<in> {0..<Suc (length x)}" by (simp add: first_at_alt occurs_at_def)
  with q show "closing_fence_overlaps x" unfolding closing_fence_overlaps_def set_upt by blast
qed

lemma overlaps_Cons:
  assumes "\<not> prefix fence (c # cs)" "closing_fence_overlaps cs"
  shows "closing_fence_overlaps (c # cs)"
proof -
  from assms(2) obtain q where q: "first_at fence cs q"
      "occurs_at json_fence cs (q + 1) \<or> occurs_at json_fence cs (q + 2)"
    using overlaps_iff by blast
  have "first_at fence (c # cs) (Suc q)" using q(1) assms(1) first_at_Suc by simp
  moreover have "occurs_at json_fence (c # cs) (Suc q + 1) \<or> occurs_at json_fence (c # cs) (Suc q + 2)"
    using q(2) by (simp add: occurs_at_Suc)
  ultimately show ?thesis using overlaps_iff by blast
qed

lemma cut_agrees:
  "\<not> closing_fence_overlaps x \<Longrightarrow>
     before_first fence (before_first json_fence x) = before_first fence x"
proof (induction x)
  case Nil
  then show ?case by simp
next
  case (Cons c cs)
  consider (j) "prefix json_fence (c # cs)"
    | (f) "\<not> prefix json_fence (c # cs)" "prefix fence (c # cs)"
    | (n) "\<not> prefix fence (c # cs)" by blast
  then show ?case
  proof cases
    case j
    then have "prefix fence (c # cs)" by (auto simp: fence_def json_fence_def prefix_def)
    with j show ?thesis by simp
  next
    case f
    have "first_at fence (c # cs) 0" using f(2) by (rule first_at_0)
    with Cons.prems have "\<not> (occurs_at json_fence (c # cs) (0 + 1) \<or> occurs_at json_fence (c # cs) (0 + 2))"
      using overlaps_iff by blast
    then have no: "\<not> occurs_at json_fence (c # cs) (Suc 0)" "\<not> occurs_at json_fence (c # cs) (Suc (Suc 0))"
      by (simp_all add: numeral_2_eq_2)
    from f(2) obtain rest where cs: "cs = CHR 0x60 # CHR 0x60 # rest" and c: "c = CHR 0x60"
      by (auto simp: fence_def prefix_def)
    have n1: "\<not> prefix json_fence cs" using no(1) by (simp add: occurs_at_Suc occurs_at_0)
    have n2: "\<not> prefix json_fence (CHR 0x60 # rest)" using no(2) cs
      by (simp add: occurs_at_Suc occurs_at_0)
    have "before_first json_fence cs = CHR 0x60 # CHR 0x60 # before_first json_fence rest"
      using n1 n2 cs by simp
    then have "prefix fence (c # before_first json_fence cs)"
      using c by (simp add: fence_def)
    then show ?thesis using f by simp
  next
    case n
    then have nj: "\<not> prefix json_fence (c # cs)" by (auto simp: fence_def json_fence_def prefix_def)
    have "\<not> prefix fence (c # before_first json_fence cs)"
      using n by (rule not_prefix_before_first)
    moreover have "\<not> closing_fence_overlaps cs" using Cons.prems overlaps_Cons [OF n] by blast
    ultimately show ?thesis using Cons.IH n nj by simp
  qed
qed


lemma inline_parse:
  "then_do (fenced_candidate text) (\<lambda>t. loads (strip t)) = loads (strip (split_candidate text))"
  by (simp add: fenced_candidate_split then_do_def)

text \<open>
  C3, as amended. The two \<^verbatim>\<open>split\<close> calls never raise \<^verbatim>\<open>IndexError\<close> and cut the
  candidate \<open>split_candidate\<close>: with a \<^verbatim>\<open>```json\<close> in the text, the stretch after the first
  one up to the next \<^verbatim>\<open>```json\<close> (or the end of the text), cut at its first \<^verbatim>\<open>```\<close>; else,
  with a \<^verbatim>\<open>```\<close>, the text between the first pair of them (to the end when there is no
  second); else the whole text. This is the candidate in the words of the specification,
  \<open>spec_candidate\<close>, unless the closing fence overlaps a later \<^verbatim>\<open>```json\<close>.
  \<^verbatim>\<open>_parse_json_from_text\<close> trims the text, selects, trims the candidate and hands it to
  \<^verbatim>\<open>json.loads\<close>, whose \<^verbatim>\<open>JSONDecodeError\<close> it passes on to its caller; \<^verbatim>\<open>grade_essay\<close>
  selects from the untrimmed message, trims and parses the candidate, and turns a
  \<^verbatim>\<open>JSONDecodeError\<close> into the raw-response dict.
\<close>

theorem candidate_cut_by_the_two_splits:
  "fenced_candidate text = Inr (split_candidate text)
   \<and> parse_json_from_text loads text = loads (strip (split_candidate (strip text)))
   \<and> grade_essay loads agent criteria_text essay_text =
       (case loads (strip (split_candidate (flatten_content (agent criteria_text essay_text)))) of
          Inr v \<Rightarrow> Inr v
        | Inl e \<Rightarrow> if caught e
                   then Inr (raw_envelope (flatten_content (agent criteria_text essay_text)))
                   else Inl e)
   \<and> (\<not> closing_fence_overlaps (after_first json_fence text) \<longrightarrow>
        split_candidate text = spec_candidate text)
   \<and> (loads (strip (split_candidate (strip text))) = Inl JSONDecodeError \<longrightarrow>
        parse_json_from_text loads text = Inl JSONDecodeError)"
proof -
  have a: "parse_json_from_text loads text = loads (strip (split_candidate (strip text)))"
    by (simp add: parse_json_from_text_def inline_parse)
  have b: "\<not> closing_fence_overlaps (after_first json_fence text) \<Longrightarrow>
        split_candidate text = spec_candidate text"
    by (simp add: split_candidate_def spec_candidate_def cut_agrees)
  have c: "grade_essay loads agent criteria_text essay_text =
       (case loads (strip (split_candidate (flatten_content (agent criteria_text essay_text)))) of
          Inr v \<Rightarrow> Inr v
        | Inl e \<Rightarrow> if caught e
                   then Inr (raw_envelope (flatten_content (agent criteria_text essay_text)))
                   else Inl e)"
    by (simp add: grade_essay_def Let_def inline_parse)
  show ?thesis using a b c fenced_candidate_split by simp
qed

theorem candidate_cut_by_the_two_splits_witness:
  "fenced_candidate ''Here: ```json {} ``` done'' = Inr '' {} ''
   \<and> parse_json_from_text sample_loads ''Here: ```json {} ``` done'' = Inr (JObject [])
   \<and> \<not> closing_fence_overlaps (after_first json_fence ''Here: ```json {} ``` done'')
   \<and> spec_candidate ''Here: ```json {} ``` done'' = '' {} ''
   \<and> parse_json_from_text sample_loads ''not json'' = Inl JSONDecodeError"
proof -
  note fenced = candidate_cut_by_the_two_splits
                  [of "''Here: ```json {} ``` done''" sample_loads agent_two_parts "[]" "[]"]
  note prose = candidate_cut_by_the_two_splits [of "''not json''" sample_loads agent_two_parts "[]" "[]"]
  have 1: "split_candidate ''Here: ```json {} ``` done'' = '' {} ''" by code_simp
  have 2: "sample_loads (strip (split_candidate (strip ''Here: ```json {} ``` done''))) = Inr (JObject [])"
    by code_simp
  have 3: "\<not> closing_fence_overlaps (after_first json_fence ''Here: ```json {} ``` done'')"
    by code_simp
  have 4: "sample_loads (strip (split_candidate (strip ''not json''))) = Inl JSONDecodeError"
    by code_simp
  have a: "fenced_candidate ''Here: ```json {} ``` done'' = Inr '' {} ''"
    using fenced [THEN conjunct1] 1 by simp
  have b: "parse_json_from_text sample_loads ''Here: ```json {} ``` done'' = Inr (JObject [])"
    using fenced [THEN conjunct2, THEN conjunct1] 2 by simp
  have c: "spec_candidate ''Here: ```json {} ``` done'' = '' {} ''"
    using fenced [THEN conjunct2, THEN conjunct2, THEN conjunct2, THEN conjunct1] 3 1 by simp
  have d: "parse_json_from_text sample_loads ''not json'' = Inl JSONDecodeError"
    using prose [THEN conjunct2, THEN conjunct2, THEN conjunct2, THEN conjunct2] 4 by simp
  show ?thesis using a b c d 3 by blast
qed

text \<open>The claim as stated fails where four backquotes precede the second \<^verbatim>\<open>json\<close>: the
  text between the opening and the next \<^verbatim>\<open>```\<close> is the JSON number 1, but the code keeps
  one backquote more and the parse fails.\<close>

theorem fence_overlapping_next_json_fence_counterexample:
  "fenced_candidate ''```json 1 ````json'' = Inr '' 1 `''
   \<and> spec_candidate ''```json 1 ````json'' = '' 1 ''
   \<and> parse_json_from_text sample_loads ''```json 1 ````json'' = Inl JSONDecodeError
   \<and> sample_loads (strip (spec_candidate ''```json 1 ````json'')) = Inr (JNumber ''1'')"
  by code_simp

section \<open>Properties of the grading agent\<close>








section \<open>Properties of the reference verifier\<close>

lemma verdict_for_Some:
  "verdict_for rs k = Some kvs \<Longrightarrow>
     JObject kvs \<in> set rs \<and> map_of kvs ''reference'' = Some (JString k)"
  by (induction rs) (auto split: option.splits json.splits if_splits)

lemma verdict_for_None:
  "verdict_for rs k = None \<Longrightarrow> JObject kvs \<in> set rs \<Longrightarrow>
     map_of kvs ''reference'' \<noteq> Some (JString k)"
  by (induction rs) (auto split: option.splits json.splits if_splits)

lemma llm_map_of_Inr:
  "llm_map_of rs m = Inr m' \<Longrightarrow>
     m' = (\<lambda>k. case verdict_for rs k of Some kvs \<Rightarrow> Some kvs | None \<Rightarrow> m k)"
proof (induction rs arbitrary: m)
  case Nil
  then show ?case by simp
next
  case (Cons r rs)
  show ?case
  proof (cases r)
    case (JObject kvs)
    show ?thesis
    proof (cases "map_of kvs ''reference''")
      case None
      with Cons.prems JObject show ?thesis by simp
    next
      case (Some key)
      show ?thesis
      proof (cases key)
        case (JString k)
        with Cons.prems JObject Some have "llm_map_of rs (m(k \<mapsto> kvs)) = Inr m'" by simp
        then have "m' = (\<lambda>k'. case verdict_for rs k' of Some kvs' \<Rightarrow> Some kvs' | None \<Rightarrow> (m(k \<mapsto> kvs)) k')"
          by (rule Cons.IH)
        then show ?thesis using JObject Some JString
          by (auto simp: fun_eq_iff split: option.splits)
      next
        case JNull
        with Cons.prems JObject Some have "llm_map_of rs m = Inr m'" by simp
        then have "m' = (\<lambda>k'. case verdict_for rs k' of Some kvs' \<Rightarrow> Some kvs' | None \<Rightarrow> m k')"
          by (rule Cons.IH)
        then show ?thesis using JObject Some JNull
          by (auto simp: fun_eq_iff split: option.splits)
      next
        case (JBool b)
        with Cons.prems JObject Some have "llm_map_of rs m = Inr m'" by simp
        then have "m' = (\<lambda>k'. case verdict_for rs k' of Some kvs' \<Rightarrow> Some kvs' | None \<Rightarrow> m k')"
          by (rule Cons.IH)
        then show ?thesis using JObject Some JBool
          by (auto simp: fun_eq_iff split: option.splits)
      next
        case (JNumber n)
        with Cons.prems JObject Some have "llm_map_of rs m = Inr m'" by simp
        then have "m' = (\<lambda>k'. case verdict_for rs k' of Some kvs' \<Rightarrow> Some kvs' | None \<Rightarrow> m k')"
          by (rule Cons.IH)
        then show ?thesis using JObject Some JNumber
          by (auto simp: fun_eq_iff split: option.splits)
      next
        case (JArray xs)
        with Cons.prems JObject Some show ?thesis by simp
      next
        case (JObject kvs')
        with Cons.prems \<open>r = JObject kvs\<close> Some show ?thesis by simp
      qed
    qed
  qed (use Cons.prems in simp_all)
qed

lemma is_verdictE:
  assumes "is_verdict v"
  obtains kvs k where "v = JObject kvs" "map_of kvs ''reference'' = Some (JString k)"
proof (cases v)
  case (JObject kvs)
  show ?thesis
  proof (cases "map_of kvs ''reference''")
    case None
    with assms JObject show ?thesis by (simp add: is_verdict_def)
  next
    case (Some key)
    with assms JObject that show ?thesis by (cases key) (simp_all add: is_verdict_def)
  qed
qed (use assms in \<open>simp_all add: is_verdict_def\<close>)

lemma llm_map_of_verdicts:
  "\<forall>v\<in>set rs. is_verdict v \<Longrightarrow> \<exists>m'. llm_map_of rs m = Inr m'"
proof (induction rs arbitrary: m)
  case Nil
  then show ?case by simp
next
  case (Cons r rs)
  from Cons.prems have "is_verdict r" by simp
  then obtain kvs k where r: "r = JObject kvs" "map_of kvs ''reference'' = Some (JString k)"
    by (rule is_verdictE)
  from Cons.prems have "\<forall>v\<in>set rs. is_verdict v" by simp
  then have "\<exists>m'. llm_map_of rs (m(k \<mapsto> kvs)) = Inr m'" by (rule Cons.IH)
  then show ?case using r by simp
qed

lemma merge_verdict_with_verdict:
  "llm_map_of rs Map.empty = Inr m \<Longrightarrow> merge_verdict m r = with_verdict rs r"
  by (drule llm_map_of_Inr) (simp add: merge_verdict_def with_verdict_def split: option.splits)

lemma llm_map_of_error: "llm_map_of rs m = Inl e \<Longrightarrow> \<not> caught e"
  by (induction rs arbitrary: m) (auto simp: caught_def split: json.splits option.splits)

text \<open>What the verifier does once a record has URLs.\<close>

lemma verify_with_urls:
  assumes "\<exists>r\<in>set refs. search_urls r \<noteq> []"
  shows "verify_references_with_llm loads model refs =
     (case parse_json_from_text loads (invoke_llm model (verify_prompt refs)) of
        Inl e \<Rightarrow> if caught e then add_markers refs else Inl e
      | Inr (JArray rs) \<Rightarrow>
          (case llm_map_of rs Map.empty of
             Inl e \<Rightarrow> Inl e
           | Inr m \<Rightarrow> Inr (map (with_verdict rs) refs))
      | Inr _ \<Rightarrow> Inr refs)"
proof -
  have ne: "filter (\<lambda>r. search_urls r \<noteq> []) refs \<noteq> []"
    using assms by (simp add: filter_empty_conv)
  show ?thesis
  proof (cases "parse_json_from_text loads (invoke_llm model (verify_prompt refs))")
    case (Inl e)
    then show ?thesis using ne by (simp add: verify_references_with_llm_def Let_def then_do_def)
  next
    case (Inr v)
    show ?thesis
    proof (cases v)
      case (JArray rs)
      show ?thesis
      proof (cases "llm_map_of rs Map.empty")
        case (Inl e)
        then show ?thesis using ne Inr JArray llm_map_of_error [OF Inl]
          by (simp add: verify_references_with_llm_def Let_def then_do_def)
      next
        case (Inr m)
        then show ?thesis using ne \<open>parse_json_from_text loads (invoke_llm model (verify_prompt refs)) = Inr v\<close> JArray
          by (simp add: verify_references_with_llm_def Let_def then_do_def merge_verdict_with_verdict)
      qed
    qed (use ne Inr in \<open>simp_all add: verify_references_with_llm_def Let_def then_do_def\<close>)
  qed
qed

lemma verify_without_urls:
  "\<forall>r\<in>set refs. search_urls r = [] \<Longrightarrow> verify_references_with_llm loads model refs = Inr refs"
  by (simp add: verify_references_with_llm_def filter_empty_conv)



text \<open>The frame of the verifier.\<close>

lemma add_marker_frame:
  "add_marker all r = Inr r' \<Longrightarrow> reference r' = reference r \<and> search_urls r' = search_urls r"
  by (auto simp: add_marker_def split: json.splits)

lemma add_markers_in_frame:
  "add_markers_in all refs = Inr out \<Longrightarrow>
     length out = length refs \<and> map reference out = map reference refs
       \<and> map search_urls out = map search_urls refs"
proof (induction refs arbitrary: out)
  case Nil
  then show ?case by simp
next
  case (Cons r refs)
  from Cons.prems obtain r' out' where
    r': "add_marker all r = Inr r'" and out': "add_markers_in all refs = Inr out'"
    and out: "out = r' # out'"
    by (auto simp: then_do_def split: sum.splits)
  show ?case using Cons.IH [OF out'] add_marker_frame [OF r'] out by simp
qed

lemma add_markers_frame:
  "add_markers refs = Inr out \<Longrightarrow>
     length out = length refs \<and> map reference out = map reference refs
       \<and> map search_urls out = map search_urls refs"
  unfolding add_markers_def by (rule add_markers_in_frame)

lemma with_verdict_frame:
  "reference (with_verdict rs r) = reference r" "search_urls (with_verdict rs r) = search_urls r"
  by (simp_all add: with_verdict_def split: option.splits)

lemma verify_frame:
  assumes "verify_references_with_llm loads model refs = Inr out"
  shows "length out = length refs \<and> map reference out = map reference refs
           \<and> map search_urls out = map search_urls refs"
proof (cases "\<exists>r\<in>set refs. search_urls r \<noteq> []")
  case False
  then have "out = refs" using assms verify_without_urls [of refs loads model] by simp
  then show ?thesis by simp
next
  case True
  note v = verify_with_urls [OF True, of loads model]
  show ?thesis
  proof (cases "parse_json_from_text loads (invoke_llm model (verify_prompt refs))")
    case (Inl e)
    then have "add_markers refs = Inr out" using assms v by (simp split: if_splits)
    then show ?thesis by (rule add_markers_frame)
  next
    case (Inr val)
    then have "out = refs \<or> (\<exists>rs. out = map (with_verdict rs) refs)"
      using assms v by (auto split: json.splits sum.splits)
    then show ?thesis by (auto simp: with_verdict_frame comp_def)
  qed
qed

text \<open>Merging the same verdicts a second time changes nothing.\<close>

lemma with_verdict_idem: "with_verdict rs (with_verdict rs r) = with_verdict rs r"
  by (simp add: with_verdict_def dict_get_def split: option.splits)

text \<open>The verifier on the sample records.\<close>

lemma judge_replies:
  "invoke_llm judge_verdict p = verdict_text"
  "invoke_llm judge_object p = ''{}''"
  "invoke_llm judge_number_array p = ''[1]''"
  "invoke_llm judge_empty_verdict p = ''[{}]''"
  "invoke_llm judge_prose p = ''not json''"
  "invoke_llm judge_deep p = deep_text"
  "invoke_llm judge_fenced p = ''Sure: ```json [] ```''"
  by (simp_all add: invoke_llm_def flatten_content_def judge_verdict_def judge_object_def
        judge_number_array_def judge_empty_verdict_def judge_prose_def judge_deep_def judge_fenced_def)

lemma sample_parses:
  "parse_json_from_text sample_loads verdict_text =
     Inr (JArray [JObject [(''reference'', JString ''A''), (''verified'', JBool True),
                           (''notes'', JString ''ok'')]])"
  "parse_json_from_text sample_loads ''{}'' = Inr (JObject [])"
  "parse_json_from_text sample_loads ''[1]'' = Inr (JArray [JNumber ''1''])"
  "parse_json_from_text sample_loads ''[{}]'' = Inr (JArray [JObject []])"
  "parse_json_from_text sample_loads ''not json'' = Inl JSONDecodeError"
  "parse_json_from_text sample_loads ''Sure: ```json [] ```'' = Inr (JArray [])"
  by code_simp+

lemma sample_urls:
  "\<exists>r\<in>set [record_A, record_B]. search_urls r \<noteq> []"
  "\<exists>r\<in>set [record_A]. search_urls r \<noteq> []"
  by (simp_all add: record_A_def)

lemma sample_reply_verdict:
  "parse_json_from_text sample_loads (invoke_llm judge_verdict (verify_prompt refs)) =
      Inr (JArray [JObject [(''reference'', JString ''A''), (''verified'', JBool True),
                           (''notes'', JString ''ok'')]])"
  by (simp add: judge_replies sample_parses)

lemma sample_reply_prose:
  "parse_json_from_text sample_loads (invoke_llm judge_prose (verify_prompt refs)) = Inl JSONDecodeError"
  by (simp add: judge_replies sample_parses)

lemma sample_merge:
  "map (with_verdict [JObject [(''reference'', JString ''A''), (''verified'', JBool True),
                           (''notes'', JString ''ok'')]]) [record_A, record_B] =
           [record_A\<lparr>verified := JBool True, ref_notes := JString ''ok''\<rparr>, record_B]"
  by (simp add: with_verdict_def record_A_def record_B_def dict_get_def)

lemma sample_verify_verdict:
  "verify_references_with_llm sample_loads judge_verdict [record_A, record_B] =
     Inr [record_A\<lparr>verified := JBool True, ref_notes := JString ''ok''\<rparr>, record_B]"
proof -
  have "verify_references_with_llm sample_loads judge_verdict [record_A, record_B] =
     Inr (map (with_verdict [JObject [(''reference'', JString ''A''), (''verified'', JBool True),
                           (''notes'', JString ''ok'')]]) [record_A, record_B])"
    by (simp add: verify_with_urls [OF sample_urls(1)] sample_reply_verdict)
  then show ?thesis by (simp only: sample_merge)
qed

lemma sample_verify_prose:
  assumes "search_urls r \<noteq> []" "ref_notes r = JString s"
  shows "verify_references_with_llm sample_loads judge_prose [r] =
           Inr [r\<lparr>ref_notes := JString (s @ parse_marker)\<rparr>]"
proof -
  have u: "\<exists>x\<in>set [r]. search_urls x \<noteq> []" using assms(1) by simp
  show ?thesis
    by (simp add: verify_with_urls [OF u] sample_reply_prose caught_def add_markers_def add_marker_def
          then_do_def assms(2))
qed

text \<open>
  C5. When a record has URLs and the reply parses as an array of verdicts, the verifier
  returns the records with, for each record whose reference string is exactly the
  \<^verbatim>\<open>reference\<close> of a verdict, \<^verbatim>\<open>verified\<close> and \<^verbatim>\<open>notes\<close> taken from that verdict (the last
  such verdict; \<^verbatim>\<open>verified\<close> is false and the notes stay when the verdict lacks the
  key), and with every other record as it was.
\<close>

theorem verdicts_merged_by_exact_reference:
  assumes "\<exists>r\<in>set refs. search_urls r \<noteq> []"
    and "parse_json_from_text loads (invoke_llm model (verify_prompt refs)) = Inr (JArray rs)"
    and "\<forall>v\<in>set rs. is_verdict v"
  shows "verify_references_with_llm loads model refs = Inr (map (with_verdict rs) refs)
     \<and> (\<forall>r\<in>set refs. verdict_for rs (reference r) = None \<longrightarrow> with_verdict rs r = r)
     \<and> (\<forall>r\<in>set refs. \<forall>kvs. verdict_for rs (reference r) = Some kvs \<longrightarrow>
           with_verdict rs r = r\<lparr>verified := dict_get kvs ''verified'' (JBool False),
                                  ref_notes := dict_get kvs ''notes'' (ref_notes r)\<rparr>)"
proof -
  obtain m where "llm_map_of rs Map.empty = Inr m"
    using llm_map_of_verdicts [OF assms(3)] by blast
  then have "verify_references_with_llm loads model refs = Inr (map (with_verdict rs) refs)"
    using assms(2) by (simp add: verify_with_urls [OF assms(1)])
  then show ?thesis by (simp add: with_verdict_def)
qed

theorem verdicts_merged_by_exact_reference_witness:
  "verify_references_with_llm sample_loads judge_verdict [record_A, record_B] =
     Inr [record_A\<lparr>verified := JBool True, ref_notes := JString ''ok''\<rparr>, record_B]"
proof -
  have v: "\<forall>v\<in>set [JObject [(''reference'', JString ''A''), (''verified'', JBool True),
                            (''notes'', JString ''ok'')]]. is_verdict v"
    by (simp add: is_verdict_def)
  have p: "parse_json_from_text sample_loads (invoke_llm judge_verdict (verify_prompt [record_A, record_B])) =
      Inr (JArray [JObject [(''reference'', JString ''A''), (''verified'', JBool True),
                           (''notes'', JString ''ok'')]])"
    by (simp add: judge_replies sample_parses)
  have m: "map (with_verdict [JObject [(''reference'', JString ''A''), (''verified'', JBool True),
                           (''notes'', JString ''ok'')]]) [record_A, record_B] =
           [record_A\<lparr>verified := JBool True, ref_notes := JString ''ok''\<rparr>, record_B]"
    by (simp add: with_verdict_def record_A_def record_B_def dict_get_def)
  show ?thesis
    using verdicts_merged_by_exact_reference [OF sample_urls(1) p v] m by simp
qed




text \<open>A list held as notes by two records, as one verdict with list notes leaves it to
  two records of the same reference, is extended once for each of them.\<close>

lemma shared_list_notes_extended_per_holder:
  "add_markers [r\<lparr>reference := ''A'', ref_notes := JArray []\<rparr>, r\<lparr>reference := ''A'', ref_notes := JArray []\<rparr>] =
     Inr [r\<lparr>reference := ''A'', ref_notes := JArray (map (\<lambda>c. JString [c]) (parse_marker @ parse_marker))\<rparr>,
          r\<lparr>reference := ''A'', ref_notes := JArray (map (\<lambda>c. JString [c]) (parse_marker @ parse_marker))\<rparr>]"
  by (simp add: add_markers_def add_marker_def holders_def then_do_def)

text \<open>
  C7. The code at the failing input: the reply \<^verbatim>\<open>[1]\<close> is an array whose element is not
  an object, and \<^verbatim>\<open>verify_references_with_llm\<close> raises \<^verbatim>\<open>TypeError\<close>, which its handler for
  \<^verbatim>\<open>JSONDecodeError\<close> and \<^verbatim>\<open>IndexError\<close> does not catch.
\<close>

theorem verify_raises_on_non_object_element:
  "verify_references_with_llm sample_loads judge_number_array [record_A] = Inl TypeError"
proof -
  have p: "parse_json_from_text sample_loads (invoke_llm judge_number_array (verify_prompt [record_A])) =
            Inr (JArray [JNumber ''1''])"
    by (simp add: judge_replies sample_parses)
  show ?thesis by (simp add: verify_with_urls [OF sample_urls(2)] p)
qed

text \<open>
  C8, as amended. If the first run returns, and either no record has URLs or the judge's
  replies to the first and to the second prompt parse to the same JSON value, then the
  second run returns the records of the first run unchanged.
\<close>

theorem verify_twice_same_reply:
  assumes "verify_references_with_llm loads model refs = Inr out"
    and "(\<forall>r\<in>set refs. search_urls r = [])
         \<or> (\<exists>v. parse_json_from_text loads (invoke_llm model (verify_prompt refs)) = Inr v
                \<and> parse_json_from_text loads (invoke_llm model (verify_prompt out)) = Inr v)"
  shows "verify_references_with_llm loads model out = Inr out"
proof (cases "\<exists>r\<in>set refs. search_urls r \<noteq> []")
  case False
  then have "out = refs" using assms(1) verify_without_urls [of refs loads model] by simp
  then show ?thesis using assms(1) by simp
next
  case True
  then obtain v where v1: "parse_json_from_text loads (invoke_llm model (verify_prompt refs)) = Inr v"
    and v2: "parse_json_from_text loads (invoke_llm model (verify_prompt out)) = Inr v"
    using assms(2) by blast
  have "map search_urls out = map search_urls refs"
    using verify_frame [OF assms(1)] by blast
  then have "set (map search_urls out) = set (map search_urls refs)" by simp
  then have urls: "\<exists>r\<in>set out. search_urls r \<noteq> []"
    using True by (metis (no_types, lifting) image_iff list.set_map)
  show ?thesis
  proof (cases "is_array v")
    case False
    then have "out = refs"
      using assms(1) v1 by (cases v) (simp_all add: verify_with_urls [OF True] is_array_def)
    then show ?thesis using assms(1) by simp
  next
    case True
    then obtain rs where rs: "v = JArray rs" by (cases v) (simp_all add: is_array_def)
    show ?thesis
    proof (cases "llm_map_of rs Map.empty")
      case (Inl e)
      then show ?thesis
        using assms(1) v1 rs by (simp add: verify_with_urls [OF \<open>\<exists>r\<in>set refs. search_urls r \<noteq> []\<close>])
    next
      case (Inr m)
      then have out: "out = map (with_verdict rs) refs"
        using assms(1) v1 rs by (simp add: verify_with_urls [OF \<open>\<exists>r\<in>set refs. search_urls r \<noteq> []\<close>])
      have "verify_references_with_llm loads model out = Inr (map (with_verdict rs) out)"
        using v2 rs Inr by (simp add: verify_with_urls [OF urls])
      also have "map (with_verdict rs) out = out"
        by (simp add: out with_verdict_idem)
      finally show ?thesis .
    qed
  qed
qed

theorem verify_twice_same_reply_witness:
  "verify_references_with_llm sample_loads judge_verdict
     [record_A\<lparr>verified := JBool True, ref_notes := JString ''ok''\<rparr>, record_B] =
     Inr [record_A\<lparr>verified := JBool True, ref_notes := JString ''ok''\<rparr>, record_B]"
  by (rule verify_twice_same_reply [OF sample_verify_verdict]) (use sample_reply_verdict in blast)

text \<open>The claim as stated fails for a judge that always replies with the same prose:
  each run appends the marker once more.\<close>

theorem marker_appended_again_counterexample:
  "verify_references_with_llm sample_loads judge_prose [record_A] =
     Inr [record_A\<lparr>ref_notes := JString ''Found 1 search results. (LLM verification failed to parse)''\<rparr>]
   \<and> verify_references_with_llm sample_loads judge_prose
       [record_A\<lparr>ref_notes := JString ''Found 1 search results. (LLM verification failed to parse)''\<rparr>] =
     Inr [record_A\<lparr>ref_notes := JString
       ''Found 1 search results. (LLM verification failed to parse) (LLM verification failed to parse)''\<rparr>]"
proof (intro conjI)
  have "verify_references_with_llm sample_loads judge_prose [record_A] =
          Inr [record_A\<lparr>ref_notes := JString (''Found 1 search results.'' @ parse_marker)\<rparr>]"
    by (rule sample_verify_prose) (simp_all add: record_A_def)
  then show "verify_references_with_llm sample_loads judge_prose [record_A] =
     Inr [record_A\<lparr>ref_notes := JString ''Found 1 search results. (LLM verification failed to parse)''\<rparr>]"
    by (simp add: parse_marker_def)
  have "verify_references_with_llm sample_loads judge_prose
       [record_A\<lparr>ref_notes := JString ''Found 1 search results. (LLM verification failed to parse)''\<rparr>] =
     Inr [record_A\<lparr>ref_notes := JString ''Found 1 search results. (LLM verification failed to parse)''\<rparr>
            \<lparr>ref_notes := JString (''Found 1 search results. (LLM verification failed to parse)'' @ parse_marker)\<rparr>]"
    by (rule sample_verify_prose) (simp_all add: record_A_def)
  then show "verify_references_with_llm sample_loads judge_prose
       [record_A\<lparr>ref_notes := JString ''Found 1 search results. (LLM verification failed to parse)''\<rparr>] =
     Inr [record_A\<lparr>ref_notes := JString
       ''Found 1 search results. (LLM verification failed to parse) (LLM verification failed to parse)''\<rparr>]"
    by (simp add: parse_marker_def)
qed

text \<open>
  The frame of the verifier: whenever \<^verbatim>\<open>verify_references_with_llm\<close> returns, the list
  returned has the length of the input and, position by position, the \<^verbatim>\<open>reference\<close> and
  the \<^verbatim>\<open>search_urls\<close> of the input.
\<close>

theorem verify_changes_only_verified_and_notes:
  assumes "verify_references_with_llm loads model refs = Inr out"
  shows "length out = length refs \<and> map reference out = map reference refs
           \<and> map search_urls out = map search_urls refs"
  using assms by (rule verify_frame)

theorem verify_changes_only_verified_and_notes_witness:
  "verify_references_with_llm sample_loads judge_verdict [record_A, record_B] =
     Inr [record_A\<lparr>verified := JBool True, ref_notes := JString ''ok''\<rparr>, record_B]
   \<and> map reference [record_A\<lparr>verified := JBool True, ref_notes := JString ''ok''\<rparr>, record_B]
        = map reference [record_A, record_B]
   \<and> map search_urls [record_A\<lparr>verified := JBool True, ref_notes := JString ''ok''\<rparr>, record_B]
        = map search_urls [record_A, record_B]"
  using verify_changes_only_verified_and_notes [OF sample_verify_verdict] sample_verify_verdict by blast

text \<open>
  C10. The code at the failing input: for the reply \<^verbatim>\<open>[{}]\<close> the verdict has no
  \<^verbatim>\<open>reference\<close>, and \<^verbatim>\<open>verify_references_with_llm\<close> raises \<^verbatim>\<open>KeyError\<close> instead of returning
  a list with the records of its input.
\<close>

theorem verify_raises_on_missing_reference:
  "verify_references_with_llm sample_loads judge_empty_verdict [record_A, record_B] = Inl KeyError"
proof -
  have p: "parse_json_from_text sample_loads (invoke_llm judge_empty_verdict (verify_prompt [record_A, record_B])) =
            Inr (JArray [JObject []])"
    by (simp add: judge_replies sample_parses)
  show ?thesis by (simp add: verify_with_urls [OF sample_urls(1)] p)
qed

section \<open>Properties of the pipeline\<close>

lemma searches_append: "searches (a @ b) = searches a @ searches b"
  by (induction a rule: searches.induct) simp_all

lemma search_single_reference_Returns:
  "search_single_reference search ref tr = (Returns r, tr1) \<Longrightarrow>
     reference r = ref \<and> searches tr1 = searches tr @ [ref]"
  by (cases "search tr ref")
     (auto simp: search_single_reference_def Let_def searches_append split: if_splits)

lemma search_single_reference_never_raises:
  "fst (search_single_reference search ref tr) \<noteq> Raises e"
  by (cases "search tr ref") (auto simp: search_single_reference_def Let_def)

lemma search_single_reference_ends:
  "search tr ref \<noteq> Never_ends \<Longrightarrow> \<exists>r tr1. search_single_reference search ref tr = (Returns r, tr1)"
  by (cases "search tr ref") (auto simp: search_single_reference_def Let_def)

lemma search_all_Returns:
  "search_all search refs tr = (Returns recs, tr') \<Longrightarrow>
     map reference recs = refs \<and> searches tr' = searches tr @ refs"
proof (induction refs arbitrary: tr recs)
  case Nil
  then show ?case by simp
next
  case (Cons ref refs)
  from Cons.prems obtain r tr1 rs where
    one: "search_single_reference search ref tr = (Returns r, tr1)"
    and rest: "search_all search refs tr1 = (Returns rs, tr')"
    and recs: "recs = r # rs"
    by (auto split: prod.splits result.splits)
  show ?case
    using Cons.IH [OF rest] search_single_reference_Returns [OF one] recs by simp
qed

lemma search_all_ends:
  "(\<And>tr q. search tr q \<noteq> Never_ends) \<Longrightarrow> \<exists>recs tr'. search_all search refs tr = (Returns recs, tr')"
proof (induction refs arbitrary: tr)
  case Nil
  then show ?case by simp
next
  case (Cons ref refs)
  obtain r tr1 where one: "search_single_reference search ref tr = (Returns r, tr1)"
    using search_single_reference_ends [of search tr ref] Cons.prems by blast
  obtain rs tr2 where "search_all search refs tr1 = (Returns rs, tr2)"
    using Cons.IH [of tr1] Cons.prems by blast
  with one show ?case by simp
qed

lemma sample_extracts:
  "extract_references_with_llm sample_loads silent_model ''An essay.'' = Inr []"
  "extract_references_with_llm sample_loads pipeline_model_ok ''An essay citing A.'' = Inr [''A'']"
  "extract_references_with_llm sample_loads pipeline_model ''An essay citing A.'' = Inr [''A'']"
  by code_simp+

lemma sample_search:
  "search_all search_finds_one [''A''] [] = (Returns [record_A], [Search ''A'', Sleep (1 / 2)])"
proof -
  have "str_nat (Suc 0) = ''1''" by code_simp
  then show ?thesis
    by (simp add: search_single_reference_def search_finds_one_def record_A_def)
qed

text \<open>
  The order of the pipeline. When the extractor yields no reference,
  \<^verbatim>\<open>verify_bibliography\<close> returns the empty list and the trace is untouched: no search is
  issued. Otherwise the references are searched one after the other in extraction
  order; when the searches have all returned, their records, one per reference and in
  that order, go to the verifier, and whenever the verifier returns, the result has one
  record per extracted reference, in extraction order.
\<close>

theorem verify_bibliography_searches_in_order:
  "(extract_references_with_llm loads model essay_text = Inr [] \<longrightarrow>
       verify_bibliography loads model search essay_text tr = (Returns [], tr))
   \<and> (\<forall>refs recs tr'.
         extract_references_with_llm loads model essay_text = Inr refs \<and> refs \<noteq> []
           \<and> search_all search refs tr = (Returns recs, tr') \<longrightarrow>
         verify_bibliography loads model search essay_text tr =
           (of_sum (verify_references_with_llm loads model recs), tr')
         \<and> map reference recs = refs
         \<and> searches tr' = searches tr @ refs
         \<and> (\<forall>out. fst (verify_bibliography loads model search essay_text tr) = Returns out \<longrightarrow>
               length out = length refs \<and> map reference out = refs))"
proof (intro conjI allI impI)
  assume "extract_references_with_llm loads model essay_text = Inr []"
  then show "verify_bibliography loads model search essay_text tr = (Returns [], tr)"
    by (simp add: verify_bibliography_def)
next
  fix refs recs tr'
  assume a: "extract_references_with_llm loads model essay_text = Inr refs \<and> refs \<noteq> []
               \<and> search_all search refs tr = (Returns recs, tr')"
  then show vb: "verify_bibliography loads model search essay_text tr =
           (of_sum (verify_references_with_llm loads model recs), tr')"
    by (simp add: verify_bibliography_def)
  from a have s: "search_all search refs tr = (Returns recs, tr')" by simp
  show r: "map reference recs = refs" using search_all_Returns [OF s] by simp
  show "searches tr' = searches tr @ refs" using search_all_Returns [OF s] by simp
  fix out
  assume "fst (verify_bibliography loads model search essay_text tr) = Returns out"
  then have "verify_references_with_llm loads model recs = Inr out"
    by (simp add: vb of_sum_def split: sum.splits)
  then have "length out = length recs \<and> map reference out = map reference recs"
    using verify_frame by blast
  then show "length out = length refs" "map reference out = refs"
    using r by (metis length_map)+
qed

lemma pipeline_replies:
  "parse_json_from_text sample_loads (invoke_llm pipeline_model_ok (verify_prompt refs)) =
      Inr (JArray [JObject [(''reference'', JString ''A''), (''verified'', JBool True),
                           (''notes'', JString ''ok'')]])"
  "parse_json_from_text sample_loads (invoke_llm pipeline_model (verify_prompt refs)) =
      Inr (JArray [JNumber ''1''])"
proof -
  have "\<not> prefix ''Extract ALL'' (verify_prompt refs)"
    by (simp add: verify_prompt_def)
  then have "invoke_llm pipeline_model_ok (verify_prompt refs) = verdict_text"
    "invoke_llm pipeline_model (verify_prompt refs) = ''[1]''"
    by (simp_all add: invoke_llm_def pipeline_model_ok_def pipeline_model_def flatten_content_def)
  then show
    "parse_json_from_text sample_loads (invoke_llm pipeline_model_ok (verify_prompt refs)) =
      Inr (JArray [JObject [(''reference'', JString ''A''), (''verified'', JBool True),
                           (''notes'', JString ''ok'')]])"
    "parse_json_from_text sample_loads (invoke_llm pipeline_model (verify_prompt refs)) =
      Inr (JArray [JNumber ''1''])"
    by (simp_all add: sample_parses)
qed

theorem verify_bibliography_searches_in_order_witness:
  "verify_bibliography sample_loads silent_model search_finds_one ''An essay.'' [] = (Returns [], [])
   \<and> verify_bibliography sample_loads pipeline_model_ok search_finds_one ''An essay citing A.'' [] =
       (Returns [record_A\<lparr>verified := JBool True, ref_notes := JString ''ok''\<rparr>],
        [Search ''A'', Sleep (1 / 2)])
   \<and> searches [Search ''A'', Sleep (1 / 2)] = searches [] @ [''A'']"
proof -
  note none = verify_bibliography_searches_in_order
                [of sample_loads silent_model "''An essay.''" search_finds_one "[]"]
  note one = verify_bibliography_searches_in_order
                [of sample_loads pipeline_model_ok "''An essay citing A.''" search_finds_one "[]"]
  have a: "verify_bibliography sample_loads silent_model search_finds_one ''An essay.'' [] = (Returns [], [])"
    using none [THEN conjunct1] sample_extracts(1) by blast
  have u: "\<exists>r\<in>set [record_A]. search_urls r \<noteq> []" by (simp add: record_A_def)
  have v: "verify_references_with_llm sample_loads pipeline_model_ok [record_A] =
             Inr [record_A\<lparr>verified := JBool True, ref_notes := JString ''ok''\<rparr>]"
    by (simp add: verify_with_urls [OF u] pipeline_replies with_verdict_def dict_get_def)
       (simp add: record_A_def)
  have "extract_references_with_llm sample_loads pipeline_model_ok ''An essay citing A.'' = Inr [''A'']
          \<and> [''A''] \<noteq> []
          \<and> search_all search_finds_one [''A''] [] = (Returns [record_A], [Search ''A'', Sleep (1 / 2)])"
    using sample_extracts(2) sample_search by simp
  with one [THEN conjunct2] have b:
    "verify_bibliography sample_loads pipeline_model_ok search_finds_one ''An essay citing A.'' [] =
       (of_sum (verify_references_with_llm sample_loads pipeline_model_ok [record_A]),
        [Search ''A'', Sleep (1 / 2)])"
    and c: "searches [Search ''A'', Sleep (1 / 2)] = searches [] @ [''A'']"
    by blast+
  show ?thesis using a b c v by (simp add: of_sum_def)
qed

text \<open>
  C9. The code at the failing input: one reference is extracted and searched, the judge
  replies \<^verbatim>\<open>[1]\<close> to the verification prompt, and \<^verbatim>\<open>verify_bibliography\<close> raises
  \<^verbatim>\<open>TypeError\<close> instead of returning one record for the reference.
\<close>

theorem verify_bibliography_raises_on_malformed_reply:
  "extract_references_with_llm sample_loads pipeline_model ''An essay citing A.'' = Inr [''A'']
   \<and> verify_bibliography sample_loads pipeline_model search_finds_one ''An essay citing A.'' [] =
       (Raises TypeError, [Search ''A'', Sleep (1 / 2)])"
proof -
  have u: "\<exists>r\<in>set [record_A]. search_urls r \<noteq> []" by (simp add: record_A_def)
  have v: "verify_references_with_llm sample_loads pipeline_model [record_A] = Inl TypeError"
    by (simp add: verify_with_urls [OF u] pipeline_replies)
  show ?thesis
    using v
    by (simp add: verify_bibliography_def sample_extracts(3) sample_search of_sum_def
          del: search_all.simps)
qed

text \<open>The extractor, for its part, absorbs the failures of the parser that its handler
  names, and lets any other exception of \<^verbatim>\<open>json.loads\<close> through.\<close>

lemma extract_references_returns:
  assumes "\<And>s e. loads s = Inl e \<Longrightarrow> caught e"
  shows "\<exists>refs. extract_references_with_llm loads model essay_text = Inr refs"
proof (cases "parse_json_from_text loads (invoke_llm model (extract_prompt essay_text))")
  case (Inl e)
  then have "loads (strip (split_candidate (strip (invoke_llm model (extract_prompt essay_text))))) = Inl e"
    by (simp add: parse_json_from_text_def inline_parse)
  then have "caught e" by (rule assms)
  with Inl show ?thesis by (simp add: extract_references_with_llm_def)
next
  case (Inr v)
  then show ?thesis by (cases v) (simp_all add: extract_references_with_llm_def)
qed

lemma extract_references_raises:
  assumes "parse_json_from_text loads (invoke_llm model (extract_prompt essay_text)) = Inl e"
    and "\<not> caught e"
  shows "extract_references_with_llm loads model essay_text = Inl e"
  using assms by (simp add: extract_references_with_llm_def)

end
